theory Spec2Isabelle
  imports
    Main
    "HOL-Library.Word"
    "HOL-Library.Char_ord"
    "HOL-Library.List_Lexorder"
    "HOL-Library.Option_ord"
    "HOL-Library.Product_Lexorder"
begin

section \<open>The message archive of wahoo (db/store.go)\<close>

text \<open>
  The archive keeps two tables, \<open>chats\<close> and \<open>messages\<close>, in one SQLite database, and
  reads contact names from a second database that may be missing. Every operation of
  \<^verbatim>\<open>db/store.go\<close> is one or more SQL statements followed by a Go loop over the rows.

  A table is modelled as the list of its rows in the order in which the storage engine
  enumerates them. A statement is modelled by what it computes on those lists:
  \<^item> \<open>FROM a JOIN b ON p\<close> pairs every row of \<open>a\<close>, in order, with the rows of \<open>b\<close> that
    satisfy \<open>p\<close>; \<open>LEFT JOIN\<close> keeps a row of \<open>a\<close> without a partner, with NULL columns;
  \<^item> \<open>WHERE\<close> filters; a NULL condition rejects the row;
  \<^item> \<open>ORDER BY\<close> sorts and keeps rows with equal keys in enumeration order;
  \<^item> \<open>LIMIT n OFFSET k\<close> drops \<open>k\<close> rows (none when \<open>k\<close> is negative) and keeps \<open>n\<close>
    (all when \<open>n\<close> is negative);
  \<^item> \<open>x LIKE p\<close> matches \<open>%\<close> against any run of characters and \<open>_\<close> against any one
    character, and compares letters of the ASCII alphabet without regard to case;
  \<^item> \<open>QueryRow\<close> takes the first row, and reports \<open>sql.ErrNoRows\<close> when there is none;
  \<^item> a statement that names a column of a table that its \<open>FROM\<close> clause does not
    introduce is refused by the engine when it is prepared.

  A timestamp is an instant, an integer number of clock ticks: the driver's encoding of
  \<^verbatim>\<open>time.Time\<close> values is not part of the repository and is taken to preserve the order of
  instants and to return the value that was stored. A Go \<^verbatim>\<open>int\<close> is a 64-bit word read
  as a signed number. A failure of the engine while it reads or writes is not modelled:
  the storage failures of the model are a statement refused when it is prepared and a
  violated foreign key.
\<close>

subsection \<open>Rows and the store\<close>

type_synonym timestamp = int

text \<open>\<^verbatim>\<open>CREATE TABLE chats (jid TEXT PRIMARY KEY, name TEXT, last_message_time TIMESTAMP)\<close>\<close>

record chat_row =
  c_jid :: string
  c_name :: "string option"
  c_last_message_time :: "timestamp option"

text \<open>
  \<^verbatim>\<open>CREATE TABLE messages (id, chat_jid, sender, content, timestamp, is_from_me, media_type,
  filename, url, media_key, file_sha256, file_enc_sha256, file_length,
  PRIMARY KEY (id, chat_jid), FOREIGN KEY (chat_jid) REFERENCES chats(jid))\<close>.
  The only writer, \<open>StoreMessage\<close>, binds Go values, so no column of a stored row is NULL.
\<close>

record message_row =
  m_id :: string
  m_chat_jid :: string
  m_sender :: string
  m_content :: string
  m_timestamp :: timestamp
  m_is_from_me :: bool
  m_media_type :: string
  m_filename :: string
  m_url :: string
  m_media_key :: "8 word list"
  m_file_sha256 :: "8 word list"
  m_file_enc_sha256 :: "8 word list"
  m_file_length :: "64 word"

text \<open>The two tables of the session database that \<open>BuildSenderCache\<close> reads.\<close>

record contact_row =
  their_jid :: string
  full_name :: "string option"
  push_name :: "string option"

record lid_row =
  lid :: string
  pn :: string

text \<open>
  \<open>None\<close> for a table of the session database means that the query on it fails (the
  file or the table does not exist yet).
\<close>

record wa_db =
  whatsmeow_contacts :: "contact_row list option"
  whatsmeow_lid_map :: "lid_row list option"

record store =
  chats :: "chat_row list"
  messages :: "message_row list"
  WaDB :: "wa_db option"

datatype error = StorageFailure | NotFound

subsection \<open>Go and SQL primitives\<close>

text \<open>\<^verbatim>\<open>strings.Index(s, "@")\<close>: the position of the first \<open>@\<close>, or \<open>-1\<close>.\<close>

definition at_sign :: char where
  "at_sign = CHR ''@''"

definition strings_Index_at :: "string \<Rightarrow> int" where
  "strings_Index_at s =
     (if at_sign \<in> set s then int (length (takeWhile (\<lambda>c. c \<noteq> at_sign) s)) else - 1)"

text \<open>\<^verbatim>\<open>strings.HasSuffix(s, suf)\<close>\<close>

definition strings_HasSuffix :: "string \<Rightarrow> string \<Rightarrow> bool" where
  "strings_HasSuffix s suf =
     (length suf \<le> length s \<and> drop (length s - length suf) s = suf)"

text \<open>SQLite's \<open>LOWER\<close> folds the letters \<open>A\<close> to \<open>Z\<close> and leaves every other byte.\<close>

definition lower_char :: "char \<Rightarrow> char" where
  "lower_char c =
     (let n = (of_char c :: nat) in if 65 \<le> n \<and> n \<le> 90 then char_of (n + 32) else c)"

definition sql_lower :: "string \<Rightarrow> string" where
  "sql_lower s = map lower_char s"

text \<open>\<open>sql_like p s\<close> is \<^verbatim>\<open>s LIKE p\<close>, with no escape character.\<close>

fun sql_like :: "string \<Rightarrow> string \<Rightarrow> bool" where
  "sql_like [] s = (s = [])"
| "sql_like (p # ps) [] = (p = CHR ''%'' \<and> sql_like ps [])"
| "sql_like (p # ps) (c # cs) =
     (if p = CHR ''%'' then sql_like ps (c # cs) \<or> sql_like (p # ps) cs
      else if p = CHR ''_'' then sql_like ps cs
      else lower_char p = lower_char c \<and> sql_like ps cs)"

text \<open>The pattern that every search builds: \<^verbatim>\<open>"%" + query + "%"\<close>.\<close>

definition contains_pattern :: "string \<Rightarrow> string" where
  "contains_pattern q = CHR ''%'' # q @ [CHR ''%'']"

text \<open>\<^verbatim>\<open>LIMIT n OFFSET k\<close>\<close>

definition sql_limit :: "int \<Rightarrow> 'a list \<Rightarrow> 'a list" where
  "sql_limit n xs = (if n < 0 then xs else take (nat n) xs)"

definition sql_offset :: "int \<Rightarrow> 'a list \<Rightarrow> 'a list" where
  "sql_offset k xs = (if k < 0 then xs else drop (nat k) xs)"

definition sql_limit_offset :: "int \<Rightarrow> int \<Rightarrow> 'a list \<Rightarrow> 'a list" where
  "sql_limit_offset n k xs = sql_limit n (sql_offset k xs)"

text \<open>\<^verbatim>\<open>ORDER BY key\<close> and \<^verbatim>\<open>ORDER BY key DESC\<close>, rows with equal keys in enumeration order.\<close>

definition order_by :: "('a \<Rightarrow> 'k::linorder) \<Rightarrow> 'a list \<Rightarrow> 'a list" where
  "order_by k xs = sort_key k xs"

definition order_by_desc :: "('a \<Rightarrow> 'k::linorder) \<Rightarrow> 'a list \<Rightarrow> 'a list" where
  "order_by_desc k xs = rev (sort_key k (rev xs))"

text \<open>\<^verbatim>\<open>SELECT DISTINCT\<close>: a row equal to an earlier one is dropped.\<close>

fun sql_distinct :: "'a list \<Rightarrow> 'a list \<Rightarrow> 'a list" where
  "sql_distinct seen [] = []"
| "sql_distinct seen (x # xs) =
     (if x \<in> set seen then sql_distinct seen xs else x # sql_distinct (x # seen) xs)"

text \<open>\<^verbatim>\<open>FROM messages JOIN chats ON messages.chat_jid = chats.jid\<close>\<close>

definition messages_join_chats :: "store \<Rightarrow> (message_row \<times> chat_row) list" where
  "messages_join_chats s =
     concat (map (\<lambda>m. map (\<lambda>c. (m, c)) (filter (\<lambda>c. m_chat_jid m = c_jid c) (chats s)))
                 (messages s))"

subsection \<open>Ingestion: StoreChat and StoreMessage\<close>

text \<open>
  \<^verbatim>\<open>INSERT OR REPLACE\<close> removes the row that holds the same primary key and adds the new
  row. The database is opened with \<^verbatim>\<open>_foreign_keys=on\<close>, so a message whose chat is not
  in \<open>chats\<close> is refused.
\<close>

definition StoreChat :: "store \<Rightarrow> string \<Rightarrow> string \<Rightarrow> timestamp \<Rightarrow> error option \<times> store" where
  "StoreChat s jid name lastMessageTime =
     (None, s\<lparr>chats := filter (\<lambda>c. c_jid c \<noteq> jid) (chats s) @
                 [\<lparr>c_jid = jid, c_name = Some name,
                   c_last_message_time = Some lastMessageTime\<rparr>]\<rparr>)"

definition StoreMessage :: "store \<Rightarrow> message_row \<Rightarrow> error option \<times> store" where
  "StoreMessage s row =
     (if m_content row = [] \<and> m_media_type row = [] then (None, s)
      else if m_chat_jid row \<notin> set (map c_jid (chats s)) then (Some StorageFailure, s)
      else (None,
            s\<lparr>messages :=
                filter (\<lambda>m. \<not> (m_id m = m_id row \<and> m_chat_jid m = m_chat_jid row)) (messages s) @
                [row]\<rparr>))"

subsection \<open>The identity cache\<close>

type_synonym cache = "string \<rightharpoonup> string"

text \<open>A Go map read \<^verbatim>\<open>cache[k]\<close> gives the empty string for a missing key.\<close>

definition go_lookup :: "cache \<Rightarrow> string \<Rightarrow> string" where
  "go_lookup cache k = (case cache k of None \<Rightarrow> [] | Some v \<Rightarrow> v)"

text \<open>
  \<^verbatim>\<open>cache[jid] = name; if idx := strings.Index(jid, "@"); idx > 0 { cache[jid[:idx]] = name }\<close>
\<close>

definition cache_put :: "string \<Rightarrow> string \<Rightarrow> cache \<Rightarrow> cache" where
  "cache_put jid name cache =
     (let c = cache(jid \<mapsto> name); idx = strings_Index_at jid
      in if idx > 0 then c(take (nat idx) jid \<mapsto> name) else c)"

text \<open>Source 1: \<^verbatim>\<open>SELECT jid, name FROM chats WHERE name IS NOT NULL AND name != ''\<close>.\<close>

definition chat_step :: "chat_row \<Rightarrow> cache \<Rightarrow> cache" where
  "chat_step r cache =
     (case c_name r of
        None \<Rightarrow> cache
      | Some n \<Rightarrow> if n = [] then cache else cache_put (c_jid r) n cache)"

text \<open>Source 2: the contact directory; the full name, and the push name when that is empty.\<close>

definition contact_display :: "contact_row \<Rightarrow> string" where
  "contact_display r =
     (let name = (case full_name r of None \<Rightarrow> [] | Some n \<Rightarrow> n)
      in if name = [] then (case push_name r of None \<Rightarrow> [] | Some n \<Rightarrow> n) else name)"

definition contact_step :: "contact_row \<Rightarrow> cache \<Rightarrow> cache" where
  "contact_step r cache =
     (let name = contact_display r
      in if name \<noteq> [] then cache_put (their_jid r) name cache else cache)"

text \<open>Source 3: linked identifier to phone number, resolved through the cache built so far.\<close>

definition lid_step :: "lid_row \<Rightarrow> cache \<Rightarrow> cache" where
  "lid_step r cache =
     (let pnJID = pn r @ ''@s.whatsapp.net'';
          name0 = go_lookup cache pnJID;
          name = (if name0 = [] then go_lookup cache (pn r) else name0)
      in if name \<noteq> [] then (cache(lid r @ ''@lid'' \<mapsto> name))(lid r \<mapsto> name) else cache)"

definition BuildSenderCache :: "store \<Rightarrow> cache" where
  "BuildSenderCache s =
     (let cache1 = fold chat_step (chats s) Map.empty
      in case WaDB s of
           None \<Rightarrow> cache1
         | Some wa \<Rightarrow>
             (case whatsmeow_contacts wa of
                None \<Rightarrow> cache1
              | Some contacts \<Rightarrow>
                  (let cache2 = fold contact_step contacts cache1
                   in case whatsmeow_lid_map wa of
                        None \<Rightarrow> cache2
                      | Some lids \<Rightarrow> fold lid_step lids cache2)))"

definition resolveSender :: "string \<Rightarrow> cache \<Rightarrow> string" where
  "resolveSender senderJID cache =
     (case cache senderJID of
        Some name \<Rightarrow> name
      | None \<Rightarrow>
          (let idx = strings_Index_at senderJID
           in if idx > 0
              then (case cache (take (nat idx) senderJID) of
                      Some name \<Rightarrow> name
                    | None \<Rightarrow> senderJID)
              else senderJID))"

definition resolveMessageSender :: "string \<Rightarrow> bool \<Rightarrow> cache \<Rightarrow> string" where
  "resolveMessageSender senderJID isFromMe cache =
     (if isFromMe then ''Me'' else resolveSender senderJID cache)"

subsection \<open>The row projector\<close>

text \<open>The row as scanned (\<^verbatim>\<open>rawMessage\<close>) and the row as returned (\<^verbatim>\<open>MessageDict\<close>).\<close>

record rawMessage =
  timestamp :: timestamp
  sender :: string
  chatName :: "string option"
  content :: "string option"
  isFromMe :: bool
  chatJID :: string
  msgid :: string
  mediaType :: "string option"

record MessageDict =
  ID :: string
  Timestamp :: timestamp
  Sender :: string
  SenderJID :: string
  Content :: string
  IsFromMe :: bool
  ChatJID :: string
  ChatName :: "string option"
  MediaType :: "string option"

definition nonempty_opt :: "string option \<Rightarrow> string option" where
  "nonempty_opt v = (case v of None \<Rightarrow> None | Some x \<Rightarrow> if x \<noteq> [] then Some x else None)"

definition rawToDict :: "rawMessage \<Rightarrow> cache \<Rightarrow> MessageDict" where
  "rawToDict r cache =
     \<lparr>ID = msgid r,
      Timestamp = timestamp r,
      Sender = resolveMessageSender (sender r) (isFromMe r) cache,
      SenderJID = sender r,
      Content = (case content r of None \<Rightarrow> [] | Some x \<Rightarrow> x),
      IsFromMe = isFromMe r,
      ChatJID = chatJID r,
      ChatName = nonempty_opt (chatName r),
      MediaType = nonempty_opt (mediaType r)\<rparr>"

text \<open>
  The eight columns every message query selects, scanned into a \<^verbatim>\<open>rawMessage\<close>:
  \<^verbatim>\<open>messages.timestamp, messages.sender, chats.name, messages.content,
  messages.is_from_me, chats.jid, messages.id, messages.media_type\<close>.
\<close>

definition scan_message :: "message_row \<times> chat_row \<Rightarrow> rawMessage" where
  "scan_message mc =
     \<lparr>timestamp = m_timestamp (fst mc),
      sender = m_sender (fst mc),
      chatName = c_name (snd mc),
      content = Some (m_content (fst mc)),
      isFromMe = m_is_from_me (fst mc),
      chatJID = c_jid (snd mc),
      msgid = m_id (fst mc),
      mediaType = Some (m_media_type (fst mc))\<rparr>"

subsection \<open>ListMessages and the context window\<close>

record ListMessagesOpts =
  lm_After :: "timestamp option"
  lm_Before :: "timestamp option"
  lm_SenderPhoneNumber :: "string option"
  lm_ChatJID :: "string option"
  lm_Query :: "string option"
  lm_Limit :: "64 word"
  lm_Page :: "64 word"
  lm_IncludeContext :: bool
  lm_ContextBefore :: "64 word"
  lm_ContextAfter :: "64 word"

text \<open>The three defaults at the head of \<open>ListMessages\<close>.\<close>

definition lm_defaults :: "ListMessagesOpts \<Rightarrow> ListMessagesOpts" where
  "lm_defaults opts =
     (let o1 = (if lm_Limit opts = 0 then opts\<lparr>lm_Limit := 20\<rparr> else opts);
          o2 = (if lm_IncludeContext o1 \<and> lm_ContextBefore o1 = 0
                then o1\<lparr>lm_ContextBefore := 1\<rparr> else o1)
      in if lm_IncludeContext o2 \<and> lm_ContextAfter o2 = 0
         then o2\<lparr>lm_ContextAfter := 1\<rparr> else o2)"

text \<open>The conjunction of the \<^verbatim>\<open>WHERE\<close> clauses that the options switch on.\<close>

definition lm_where :: "ListMessagesOpts \<Rightarrow> message_row \<times> chat_row \<Rightarrow> bool" where
  "lm_where opts mc =
     ((case lm_After opts of None \<Rightarrow> True | Some a \<Rightarrow> m_timestamp (fst mc) > a) \<and>
      (case lm_Before opts of None \<Rightarrow> True | Some b \<Rightarrow> m_timestamp (fst mc) < b) \<and>
      (case lm_SenderPhoneNumber opts of None \<Rightarrow> True | Some p \<Rightarrow> m_sender (fst mc) = p) \<and>
      (case lm_ChatJID opts of None \<Rightarrow> True | Some j \<Rightarrow> m_chat_jid (fst mc) = j) \<and>
      (case lm_Query opts of
         None \<Rightarrow> True
       | Some q \<Rightarrow>
           sql_like (sql_lower (contains_pattern q)) (sql_lower (m_content (fst mc))) \<or>
           sql_like (sql_lower (contains_pattern q)) (sql_lower (m_media_type (fst mc)))))"

text \<open>
  The statement of \<open>ListMessages\<close> on options that already hold their defaults:
  \<^verbatim>\<open>... ORDER BY messages.timestamp DESC LIMIT ? OFFSET ?\<close> with
  \<^verbatim>\<open>offset := opts.Page * opts.Limit\<close>, a product of Go \<^verbatim>\<open>int\<close>s.
\<close>

definition list_messages_rows :: "store \<Rightarrow> ListMessagesOpts \<Rightarrow> rawMessage list" where
  "list_messages_rows s opts =
     map scan_message
       (sql_limit_offset (sint (lm_Limit opts)) (sint (lm_Page opts * lm_Limit opts))
          (order_by_desc (\<lambda>mc. m_timestamp (fst mc))
             (filter (lm_where opts) (messages_join_chats s))))"

text \<open>The two neighbour queries that both context operations run.\<close>

definition messages_before :: "store \<Rightarrow> string \<Rightarrow> timestamp \<Rightarrow> int \<Rightarrow> rawMessage list" where
  "messages_before s chat t n =
     map scan_message
       (sql_limit n
          (order_by_desc (\<lambda>mc. m_timestamp (fst mc))
             (filter (\<lambda>mc. m_chat_jid (fst mc) = chat \<and> m_timestamp (fst mc) < t)
                (messages_join_chats s))))"

definition messages_after :: "store \<Rightarrow> string \<Rightarrow> timestamp \<Rightarrow> int \<Rightarrow> rawMessage list" where
  "messages_after s chat t n =
     map scan_message
       (sql_limit n
          (order_by (\<lambda>mc. m_timestamp (fst mc))
             (filter (\<lambda>mc. m_chat_jid (fst mc) = chat \<and> m_timestamp (fst mc) > t)
                (messages_join_chats s))))"

text \<open>The target of a context window: \<^verbatim>\<open>... WHERE messages.id = ?\<close>, first row.\<close>

definition context_target :: "store \<Rightarrow> string \<Rightarrow> (message_row \<times> chat_row) option" where
  "context_target s messageID = find (\<lambda>mc. m_id (fst mc) = messageID) (messages_join_chats s)"

definition getMessageContextRaw ::
  "store \<Rightarrow> string \<Rightarrow> 64 word \<Rightarrow> 64 word \<Rightarrow> error + rawMessage list" where
  "getMessageContextRaw s messageID before after =
     (case context_target s messageID of
        None \<Rightarrow> Inl NotFound
      | Some mc \<Rightarrow>
          (let target = scan_message mc;
               chat = m_chat_jid (fst mc);
               beforeMsgs = messages_before s chat (timestamp target) (sint before);
               afterMsgs = messages_after s chat (timestamp target) (sint after)
           in Inr (rev beforeMsgs @ [target] @ afterMsgs)))"

text \<open>
  The two nested loops of \<open>ListMessages\<close>. The state is the \<^verbatim>\<open>seen\<close> map, as the set of
  its keys, and the \<^verbatim>\<open>result\<close> slice. A window whose lookup fails is skipped.
\<close>

fun ctx_loop ::
  "cache \<Rightarrow> rawMessage list \<Rightarrow> string set \<times> MessageDict list \<Rightarrow> string set \<times> MessageDict list"
where
  "ctx_loop cache [] st = st"
| "ctx_loop cache (m # ms) (seen, result) =
     (if msgid m \<notin> seen
      then ctx_loop cache ms (insert (msgid m) seen, result @ [rawToDict m cache])
      else ctx_loop cache ms (seen, result))"

fun match_loop ::
  "store \<Rightarrow> 64 word \<Rightarrow> 64 word \<Rightarrow> cache \<Rightarrow> rawMessage list \<Rightarrow>
   string set \<times> MessageDict list \<Rightarrow> string set \<times> MessageDict list"
where
  "match_loop s b a cache [] st = st"
| "match_loop s b a cache (msg # msgs) st =
     (case getMessageContextRaw s (msgid msg) b a of
        Inl e \<Rightarrow> match_loop s b a cache msgs st
      | Inr ctx \<Rightarrow> match_loop s b a cache msgs (ctx_loop cache ctx st))"

definition ListMessages :: "store \<Rightarrow> ListMessagesOpts \<Rightarrow> error + MessageDict list" where
  "ListMessages s opts0 =
     (let opts = lm_defaults opts0;
          msgs = list_messages_rows s opts;
          cache = BuildSenderCache s
      in if lm_IncludeContext opts \<and> msgs \<noteq> []
         then Inr (snd (match_loop s (lm_ContextBefore opts) (lm_ContextAfter opts) cache msgs
                          ({}, [])))
         else Inr (map (\<lambda>m. rawToDict m cache) msgs))"



text \<open>\<open>GetLastInteraction\<close>: \<^verbatim>\<open>WHERE m.sender = ? OR c.jid = ? ORDER BY m.timestamp DESC LIMIT 1\<close>.\<close>

definition GetLastInteraction :: "store \<Rightarrow> string \<Rightarrow> error + MessageDict option" where
  "GetLastInteraction s ident =
     (case order_by_desc (\<lambda>mc. m_timestamp (fst mc))
             (filter (\<lambda>mc. m_sender (fst mc) = ident \<or> c_jid (snd mc) = ident)
                (messages_join_chats s)) of
        [] \<Rightarrow> Inr None
      | mc # rest \<Rightarrow> Inr (Some (rawToDict (scan_message mc) (BuildSenderCache s))))"

subsection \<open>Chat queries\<close>

text \<open>The row as scanned (\<^verbatim>\<open>rawChat\<close>) and the row as returned (\<^verbatim>\<open>ChatDict\<close>).\<close>

record rawChat =
  jid :: string
  name :: "string option"
  lastTime :: "timestamp option"
  lastMsg :: "string option"
  lastSender :: "string option"
  lastIsFromMe :: "bool option"

record ChatDict =
  JID :: string
  Name :: "string option"
  IsGroup :: bool
  LastMessageTime :: "timestamp option"
  LastMessage :: "string option"
  LastSender :: "string option"
  LastIsFromMe :: "bool option"

definition toDict :: "rawChat \<Rightarrow> cache \<Rightarrow> ChatDict" where
  "toDict r cache =
     \<lparr>JID = jid r,
      Name = name r,
      IsGroup = strings_HasSuffix (jid r) ''@g.us'',
      LastMessageTime = lastTime r,
      LastMessage = lastMsg r,
      LastSender =
        (case lastSender r of
           None \<Rightarrow> None
         | Some sj \<Rightarrow> Some (resolveMessageSender sj (lastIsFromMe r = Some True) cache)),
      LastIsFromMe = lastIsFromMe r\<rparr>"

text \<open>
  The tables a statement can name. Every chat statement selects
  \<^verbatim>\<open>chats.jid, chats.name, chats.last_message_time, messages.content, messages.sender,
  messages.is_from_me\<close>, so it names both tables; \<open>prepare\<close> is the engine's check that
  each named table is introduced by \<open>FROM\<close> or a \<open>JOIN\<close>.
\<close>

datatype sql_table = T_chats | T_messages

definition chat_select_list :: "sql_table list" where
  "chat_select_list = [T_chats, T_chats, T_chats, T_messages, T_messages, T_messages]"

definition prepare :: "sql_table list \<Rightarrow> sql_table list \<Rightarrow> error option" where
  "prepare named introduced =
     (if list_all (\<lambda>t. t \<in> set introduced) named then None else Some StorageFailure)"

text \<open>
  \<^verbatim>\<open>FROM chats LEFT JOIN messages ON chats.jid = messages.chat_jid
  AND chats.last_message_time = messages.timestamp\<close>
\<close>

definition chats_left_join_last :: "store \<Rightarrow> (chat_row \<times> message_row option) list" where
  "chats_left_join_last s =
     concat (map (\<lambda>c.
        (case filter (\<lambda>m. c_jid c = m_chat_jid m \<and> c_last_message_time c = Some (m_timestamp m))
                (messages s) of
           [] \<Rightarrow> [(c, None)]
         | m # ms \<Rightarrow> map (\<lambda>x. (c, Some x)) (m # ms))) (chats s))"

text \<open>\<^verbatim>\<open>FROM chats c JOIN messages m ON c.jid = m.chat_jid\<close>\<close>

definition chats_join_messages :: "store \<Rightarrow> (chat_row \<times> message_row option) list" where
  "chats_join_messages s =
     concat (map (\<lambda>c. map (\<lambda>m. (c, Some m)) (filter (\<lambda>m. c_jid c = m_chat_jid m) (messages s)))
                 (chats s))"

definition scan_chat :: "chat_row \<times> message_row option \<Rightarrow> rawChat" where
  "scan_chat cm =
     \<lparr>jid = c_jid (fst cm),
      name = c_name (fst cm),
      lastTime = c_last_message_time (fst cm),
      lastMsg = map_option m_content (snd cm),
      lastSender = map_option m_sender (snd cm),
      lastIsFromMe = map_option m_is_from_me (snd cm)\<rparr>"

record ListChatsOpts =
  lc_Query :: "string option"
  lc_Limit :: "64 word"
  lc_Page :: "64 word"
  lc_IncludeLastMessage :: bool
  lc_SortBy :: string

definition lc_defaults :: "ListChatsOpts \<Rightarrow> ListChatsOpts" where
  "lc_defaults opts =
     (let o1 = (if lc_Limit opts = 0 then opts\<lparr>lc_Limit := 20\<rparr> else opts)
      in if lc_SortBy o1 = [] then o1\<lparr>lc_SortBy := ''last_active''\<rparr> else o1)"

text \<open>
  \<^verbatim>\<open>(LOWER(chats.name) LIKE LOWER(?) OR chats.jid LIKE ?)\<close>; a NULL name leaves the
  decision to the second disjunct.
\<close>

definition lc_where :: "ListChatsOpts \<Rightarrow> chat_row \<times> message_row option \<Rightarrow> bool" where
  "lc_where opts cm =
     (case lc_Query opts of
        None \<Rightarrow> True
      | Some q \<Rightarrow>
          (case c_name (fst cm) of
             None \<Rightarrow> False
           | Some n \<Rightarrow> sql_like (sql_lower (contains_pattern q)) (sql_lower n)) \<or>
          sql_like (contains_pattern q) (c_jid (fst cm)))"

definition ListChats :: "store \<Rightarrow> ListChatsOpts \<Rightarrow> error + ChatDict list" where
  "ListChats s opts0 =
     (let opts = lc_defaults opts0;
          introduced = T_chats # (if lc_IncludeLastMessage opts then [T_messages] else [])
      in case prepare chat_select_list introduced of
           Some e \<Rightarrow> Inl e
         | None \<Rightarrow>
             (let rows = filter (lc_where opts) (chats_left_join_last s);
                  sorted_rows =
                    (if lc_SortBy opts = ''last_active''
                     then order_by_desc (\<lambda>cm. c_last_message_time (fst cm)) rows
                     else order_by (\<lambda>cm. c_name (fst cm)) rows);
                  page = sql_limit_offset (sint (lc_Limit opts))
                           (sint (lc_Page opts * lc_Limit opts)) sorted_rows;
                  cache = BuildSenderCache s
              in Inr (map (\<lambda>cm. toDict (scan_chat cm) cache) page)))"

text \<open>\<open>GetChat\<close> answers \<open>Inr None\<close> where the Go function returns \<^verbatim>\<open>nil, nil\<close>.\<close>

definition GetChat :: "store \<Rightarrow> string \<Rightarrow> bool \<Rightarrow> error + ChatDict option" where
  "GetChat s chatKey includeLastMessage =
     (let introduced = T_chats # (if includeLastMessage then [T_messages] else [])
      in case prepare chat_select_list introduced of
           Some e \<Rightarrow> Inl e
         | None \<Rightarrow>
             (case filter (\<lambda>cm. c_jid (fst cm) = chatKey) (chats_left_join_last s) of
                [] \<Rightarrow> Inr None
              | cm # rest \<Rightarrow> Inr (Some (toDict (scan_chat cm) (BuildSenderCache s)))))"

text \<open>\<^verbatim>\<open>WHERE c.jid LIKE ? AND c.jid NOT LIKE '%@g.us' LIMIT 1\<close>\<close>

definition group_pattern :: string where
  "group_pattern = ''%@g.us''"

definition GetDirectChatByContact :: "store \<Rightarrow> string \<Rightarrow> error + ChatDict option" where
  "GetDirectChatByContact s phoneNumber =
     (case prepare chat_select_list [T_chats, T_messages] of
        Some e \<Rightarrow> Inl e
      | None \<Rightarrow>
          (case filter (\<lambda>cm. sql_like (contains_pattern phoneNumber) (c_jid (fst cm)) \<and>
                             \<not> sql_like group_pattern (c_jid (fst cm)))
                  (chats_left_join_last s) of
             [] \<Rightarrow> Inr None
           | cm # rest \<Rightarrow> Inr (Some (toDict (scan_chat cm) (BuildSenderCache s)))))"

text \<open>
  \<^verbatim>\<open>SELECT DISTINCT c.jid, c.name, c.last_message_time, m.content, m.sender, m.is_from_me
  FROM chats c JOIN messages m ON c.jid = m.chat_jid WHERE m.sender = ? OR c.jid = ?
  ORDER BY c.last_message_time DESC LIMIT ? OFFSET ?\<close>
\<close>

definition GetContactChats :: "store \<Rightarrow> string \<Rightarrow> 64 word \<Rightarrow> 64 word \<Rightarrow> error + ChatDict list" where
  "GetContactChats s ident limit0 page =
     (let limit = (if limit0 = 0 then 20 else limit0)
      in case prepare chat_select_list [T_chats, T_messages] of
           Some e \<Rightarrow> Inl e
         | None \<Rightarrow>
             (let rows = filter (\<lambda>cm. map_option m_sender (snd cm) = Some ident \<or>
                                      c_jid (fst cm) = ident)
                           (chats_join_messages s);
                  selected = sql_distinct [] (map scan_chat rows);
                  sorted_rows = order_by_desc lastTime selected;
                  window = sql_limit_offset (sint limit) (sint (page * limit)) sorted_rows;
                  cache = BuildSenderCache s
              in Inr (map (\<lambda>r. toDict r cache) window)))"

subsection \<open>SearchContacts\<close>






section \<open>Notions for the statements\<close>

text \<open>
  The local part of an identifier, as the glossary has it: the substring before its
  first \<open>@\<close>. An identifier without \<open>@\<close> is its own local part.
\<close>

definition local_part :: "string \<Rightarrow> string" where
  "local_part s = takeWhile (\<lambda>c. c \<noteq> at_sign) s"

text \<open>
  The display-name rule as section 4.2 words it: the sentinel for own messages, then the
  cache at the raw identifier, then the cache at its local part, then the raw identifier.
\<close>

definition claimed_display_name :: "string \<Rightarrow> bool \<Rightarrow> cache \<Rightarrow> string" where
  "claimed_display_name raw fromMe cache =
     (if fromMe then ''Me''
      else case cache raw of
             Some n \<Rightarrow> n
           | None \<Rightarrow> (case cache (local_part raw) of Some n \<Rightarrow> n | None \<Rightarrow> raw))"

text \<open>The same rule with the local part consulted only when it is not empty.\<close>

definition guarded_display_name :: "string \<Rightarrow> bool \<Rightarrow> cache \<Rightarrow> string" where
  "guarded_display_name raw fromMe cache =
     (if fromMe then ''Me''
      else case cache raw of
             Some n \<Rightarrow> n
           | None \<Rightarrow>
               if local_part raw = [] then raw
               else (case cache (local_part raw) of Some n \<Rightarrow> n | None \<Rightarrow> raw))"

text \<open>A message that ingestion keeps: it has text or a media type.\<close>

definition persistable :: "message_row \<Rightarrow> bool" where
  "persistable m = (m_content m \<noteq> [] \<or> m_media_type m \<noteq> [])"

text \<open>The primary key of the message row behind a joined row.\<close>

definition row_key :: "message_row \<times> chat_row \<Rightarrow> string \<times> string" where
  "row_key mc = (m_id (fst mc), m_chat_jid (fst mc))"



text \<open>The filtered and sorted rows of a \<open>ListMessages\<close> statement, before the page is cut.\<close>

definition filtered_sorted :: "store \<Rightarrow> ListMessagesOpts \<Rightarrow> (message_row \<times> chat_row) list" where
  "filtered_sorted s opts =
     order_by_desc (\<lambda>mc. m_timestamp (fst mc)) (filter (lm_where opts) (messages_join_chats s))"


text \<open>
  The names that each source contributes when it is read alone, and the keys that the
  linkage table writes.
\<close>

definition chat_names :: "store \<Rightarrow> cache" where
  "chat_names s = fold chat_step (chats s) Map.empty"

definition contact_names :: "contact_row list \<Rightarrow> cache" where
  "contact_names cs = fold contact_step cs Map.empty"

definition lid_keys :: "lid_row list \<Rightarrow> string set" where
  "lid_keys ls = (\<Union>r \<in> set ls. {lid r @ ''@lid'', lid r})"

text \<open>
  The keys under which a row of the chat table or of the contact directory is indexed:
  the identifier, and its local part when that is not empty.
\<close>

definition row_keys :: "string \<Rightarrow> string set" where
  "row_keys j = {j} \<union> (if local_part j \<noteq> [] then {local_part j} else {})"

text \<open>The name that a row of the linkage table resolves to in a cache.\<close>

definition lid_name :: "lid_row \<Rightarrow> cache \<Rightarrow> string" where
  "lid_name r cache =
     (if go_lookup cache (pn r @ ''@s.whatsapp.net'') = [] then go_lookup cache (pn r)
      else go_lookup cache (pn r @ ''@s.whatsapp.net''))"

text \<open>
  Containment without regard to the case of ASCII letters: \<open>ci_prefix q s\<close> when \<open>q\<close>
  starts \<open>s\<close>, \<open>ci_contains q s\<close> when \<open>q\<close> occurs in \<open>s\<close> as a substring, \<open>ci_suffix q s\<close>
  when \<open>q\<close> ends \<open>s\<close>.
\<close>

fun ci_prefix :: "string \<Rightarrow> string \<Rightarrow> bool" where
  "ci_prefix [] s = True"
| "ci_prefix (q # qs) [] = False"
| "ci_prefix (q # qs) (c # cs) = (lower_char q = lower_char c \<and> ci_prefix qs cs)"

fun ci_contains :: "string \<Rightarrow> string \<Rightarrow> bool" where
  "ci_contains q [] = ci_prefix q []"
| "ci_contains q (c # cs) = (ci_prefix q (c # cs) \<or> ci_contains q cs)"





text \<open>
  The primary keys of the schema: no two chats share a key, and no two messages share
  both the message id and the chat key.
\<close>

definition pk_ok :: "store \<Rightarrow> bool" where
  "pk_ok s =
     (distinct (map c_jid (chats s)) \<and>
      distinct (map (\<lambda>m. (m_id m, m_chat_jid m)) (messages s)))"





section \<open>Example rows and stores\<close>

definition text_message :: "string \<Rightarrow> string \<Rightarrow> string \<Rightarrow> string \<Rightarrow> timestamp \<Rightarrow> message_row" where
  "text_message i c sn body t =
     \<lparr>m_id = i, m_chat_jid = c, m_sender = sn, m_content = body, m_timestamp = t,
      m_is_from_me = False, m_media_type = [], m_filename = [], m_url = [],
      m_media_key = [], m_file_sha256 = [], m_file_enc_sha256 = [], m_file_length = 0\<rparr>"

definition named_chat :: "string \<Rightarrow> string \<Rightarrow> timestamp \<Rightarrow> chat_row" where
  "named_chat j n t = \<lparr>c_jid = j, c_name = Some n, c_last_message_time = Some t\<rparr>"

definition empty_store :: store where
  "empty_store = \<lparr>chats = [], messages = [], WaDB = None\<rparr>"

text \<open>A chat that was stored for an event without text and without media: no message.\<close>

definition silent_chat_store :: store where
  "silent_chat_store = snd (StoreChat empty_store ''111@s.whatsapp.net'' ''Bob'' 1)"

definition chats_opts :: "bool \<Rightarrow> ListChatsOpts" where
  "chats_opts withLast =
     \<lparr>lc_Query = None, lc_Limit = 0, lc_Page = 0, lc_IncludeLastMessage = withLast,
      lc_SortBy = []\<rparr>"

definition mail_from_at_x :: rawMessage where
  "mail_from_at_x =
     \<lparr>timestamp = 1, sender = ''@x'', chatName = None, content = Some ''hi'',
      isFromMe = False, chatJID = ''c'', msgid = ''A'', mediaType = None\<rparr>"

definition mail_from_111 :: rawMessage where
  "mail_from_111 =
     \<lparr>timestamp = 1, sender = ''111@s.whatsapp.net'', chatName = None, content = Some ''hi'',
      isFromMe = False, chatJID = ''111@s.whatsapp.net'', msgid = ''A'', mediaType = None\<rparr>"

text \<open>One chat with five messages at the instants 1 to 5.\<close>

definition five_store :: store where
  "five_store =
     \<lparr>chats = [named_chat ''c@s.whatsapp.net'' ''Chat'' 5],
      messages = [text_message ''m1'' ''c@s.whatsapp.net'' ''a'' ''one'' 1,
                  text_message ''m2'' ''c@s.whatsapp.net'' ''a'' ''two'' 2,
                  text_message ''m3'' ''c@s.whatsapp.net'' ''a'' ''three'' 3,
                  text_message ''m4'' ''c@s.whatsapp.net'' ''a'' ''four'' 4,
                  text_message ''m5'' ''c@s.whatsapp.net'' ''a'' ''five'' 5],
      WaDB = None\<rparr>"

text \<open>Options without a filter: limit, page, and whether context is included.\<close>

definition page_opts :: "64 word \<Rightarrow> 64 word \<Rightarrow> bool \<Rightarrow> ListMessagesOpts" where
  "page_opts l p ctx =
     \<lparr>lm_After = None, lm_Before = None, lm_SenderPhoneNumber = None, lm_ChatJID = None,
      lm_Query = None, lm_Limit = l, lm_Page = p, lm_IncludeContext = ctx,
      lm_ContextBefore = 0, lm_ContextAfter = 0\<rparr>"




text \<open>
  The scenario of section 8: the chat table names \<open>111@s.whatsapp.net\<close> \<open>Bob (phone)\<close>,
  the contact directory gives the full name \<open>Bob Smith\<close>.
\<close>

definition bob_contact :: contact_row where
  "bob_contact =
     \<lparr>their_jid = ''111@s.whatsapp.net'', full_name = Some ''Bob Smith'', push_name = None\<rparr>"

definition bob_wa :: wa_db where
  "bob_wa = \<lparr>whatsmeow_contacts = Some [bob_contact], whatsmeow_lid_map = Some []\<rparr>"

definition bob_store :: store where
  "bob_store =
     \<lparr>chats = [named_chat ''111@s.whatsapp.net'' ''Bob (phone)'' 1],
      messages = [],
      WaDB = Some bob_wa\<rparr>"

text \<open>A named chat whose key begins with \<open>@\<close>.\<close>

definition at_x_store :: store where
  "at_x_store = \<lparr>chats = [named_chat ''@x'' ''N'' 1], messages = [], WaDB = None\<rparr>"




section \<open>Properties\<close>

subsection \<open>Identifiers and their local part\<close>

lemma take_Index_at:
  "at_sign \<in> set s \<Longrightarrow> take (nat (strings_Index_at s)) s = local_part s"
  by (simp add: strings_Index_at_def local_part_def takeWhile_eq_take [symmetric])

lemma Index_at_pos:
  "at_sign \<in> set s \<Longrightarrow> (strings_Index_at s > 0) = (local_part s \<noteq> [])"
  by (simp add: strings_Index_at_def local_part_def)

lemma Index_at_absent:
  "at_sign \<notin> set s \<Longrightarrow> strings_Index_at s = - 1 \<and> local_part s = s"
  by (auto simp: strings_Index_at_def local_part_def)

lemma resolveSender_rule:
  "resolveSender raw cache =
     (case cache raw of
        Some n \<Rightarrow> n
      | None \<Rightarrow>
          if local_part raw = [] then raw
          else (case cache (local_part raw) of Some n \<Rightarrow> n | None \<Rightarrow> raw))"
proof (cases "at_sign \<in> set raw")
  case True
  then show ?thesis
    by (simp add: resolveSender_def Let_def take_Index_at Index_at_pos split: option.splits)
next
  case False
  then show ?thesis
    by (auto simp: resolveSender_def Let_def Index_at_absent split: option.splits)
qed

subsection \<open>Display names\<close>

text \<open>
  Claim C6, as amended. The display name of a projected message is \<open>Me\<close> when the message
  is flagged from-me, whatever the cache holds; otherwise it is the cache entry of the raw
  sender identifier; otherwise, when the local part of the identifier (the substring
  before its first \<open>@\<close>) is not empty, the cache entry of that local part; otherwise the raw
  identifier.
\<close>

theorem display_name_rule:
  "Sender (rawToDict r cache) = guarded_display_name (sender r) (isFromMe r) cache"
  by (simp add: rawToDict_def resolveMessageSender_def guarded_display_name_def
      resolveSender_rule)

theorem display_name_rule_witness:
  "Sender (rawToDict mail_from_111 [''111'' \<mapsto> ''Bob Smith'']) = ''Bob Smith''"
  using display_name_rule [of mail_from_111 "[''111'' \<mapsto> ''Bob Smith'']"]
  by (simp add: guarded_display_name_def local_part_def at_sign_def mail_from_111_def)

text \<open>
  The rule as the specification words it consults the cache at the local part even when
  that is the empty string. \<open>resolveSender\<close> does so only when \<open>@\<close> is not the first
  character: for the sender \<open>@x\<close> and a cache that holds a name under the empty key, the
  worded rule gives that name and the code gives \<open>@x\<close>.
\<close>

theorem display_name_counterexample:
  "Sender (rawToDict mail_from_at_x [[] \<mapsto> ''Z'']) \<noteq>
   claimed_display_name (sender mail_from_at_x) (isFromMe mail_from_at_x) [[] \<mapsto> ''Z'']"
  by (simp add: rawToDict_def resolveMessageSender_def resolveSender_def
      claimed_display_name_def local_part_def at_sign_def strings_Index_at_def
      mail_from_at_x_def)

subsection \<open>Ingestion\<close>

text \<open>
  Claim C8. \<open>StoreMessage\<close>, given a message with empty text and no media type, reports
  no error and returns the store as it was. Hence a table in which every row has text or
  a media type stays so under \<open>StoreMessage\<close>, whatever the message; and \<open>StoreChat\<close>
  does not touch the table.
\<close>

theorem StoreMessage_drops_empty:
  "(m_content row = [] \<and> m_media_type row = [] \<longrightarrow> StoreMessage s row = (None, s)) \<and>
   (list_all persistable (messages s) \<longrightarrow>
      list_all persistable (messages (snd (StoreMessage s row)))) \<and>
   messages (snd (StoreChat s j n t)) = messages s"
  by (auto simp: StoreMessage_def StoreChat_def persistable_def list_all_iff)

theorem StoreMessage_drops_empty_witness:
  "StoreMessage silent_chat_store (text_message ''A'' ''111@s.whatsapp.net'' ''111'' [] 1)
     = (None, silent_chat_store) \<and>
   list_all persistable
     (messages (snd (StoreMessage silent_chat_store
                       (text_message ''A'' ''111@s.whatsapp.net'' ''111'' [] 1))))"
  using StoreMessage_drops_empty
    [of "text_message ''A'' ''111@s.whatsapp.net'' ''111'' [] 1" silent_chat_store]
  by (simp add: text_message_def StoreChat_def empty_store_def silent_chat_store_def)

text \<open>Both operations keep the primary keys of the schema.\<close>

lemma pk_ok_empty: "pk_ok empty_store"
  by (simp add: pk_ok_def empty_store_def)

lemma pk_ok_StoreChat: "pk_ok s \<Longrightarrow> pk_ok (snd (StoreChat s j n t))"
  by (auto simp: pk_ok_def StoreChat_def distinct_map_filter)

lemma pk_ok_StoreMessage: "pk_ok s \<Longrightarrow> pk_ok (snd (StoreMessage s row))"
  by (auto simp: pk_ok_def StoreMessage_def distinct_map_filter)

subsection \<open>Chat statements that name a table they do not join\<close>

text \<open>
  Claim C2. With \<open>includeLastMessage\<close> false, \<open>ListChats\<close> and \<open>GetChat\<close> fail with a
  storage failure on every store: the select list names three columns of \<open>messages\<close>,
  and the join that introduces that table is added only when the flag is true.
\<close>

theorem chat_query_without_join_fails:
  "(\<not> lc_IncludeLastMessage opts \<longrightarrow> ListChats s opts = Inl StorageFailure) \<and>
   GetChat s chatKey False = Inl StorageFailure"
  by (simp add: ListChats_def GetChat_def lc_defaults_def prepare_def chat_select_list_def
      Let_def)

theorem chat_query_without_join_fails_witness:
  "ListChats silent_chat_store (chats_opts False) = Inl StorageFailure \<and>
   GetChat silent_chat_store ''111@s.whatsapp.net'' False = Inl StorageFailure"
  using chat_query_without_join_fails
    [of "chats_opts False" silent_chat_store "''111@s.whatsapp.net''"]
  by (simp add: chats_opts_def)

subsection \<open>The chats of a contact\<close>

text \<open>
  Claim C4 fails on the code. \<open>GetContactChats\<close> joins \<open>chats\<close> with \<open>messages\<close> by an
  inner join before it tests \<open>c.jid = ?\<close>, so a chat without a stored message yields no
  row: asked for the key of such a chat, it returns the empty list. \<open>GetChat\<close>, which
  uses a left join, returns the chat.
\<close>

theorem GetContactChats_misses_silent_chat:
  "map c_jid (chats silent_chat_store) = [''111@s.whatsapp.net''] \<and>
   messages silent_chat_store = [] \<and>
   GetContactChats silent_chat_store ''111@s.whatsapp.net'' 0 0 = Inr [] \<and>
   map_option JID (projr (GetChat silent_chat_store ''111@s.whatsapp.net'' True))
     = Some ''111@s.whatsapp.net''"
  by code_simp

subsection \<open>The loops of ListMessages\<close>











subsection \<open>Joined rows and context windows under the primary keys\<close>

lemma length_filter_key:
  "distinct (map f xs) \<Longrightarrow> length (filter (\<lambda>x. k = f x) xs) = (if k \<in> f ` set xs then 1 else 0)"
  by (induction xs) (auto simp: image_iff)

lemma map_fst_pairs:
  "distinct (map c_jid cs) \<Longrightarrow>
   map fst (concat (map (\<lambda>m. map (\<lambda>c. (m, c)) (filter (\<lambda>c. m_chat_jid m = c_jid c) cs)) ms)) =
   filter (\<lambda>m. m_chat_jid m \<in> c_jid ` set cs) ms"
proof (induction ms)
  case Nil
  then show ?case by simp
next
  case (Cons m ms)
  have "map fst (map (\<lambda>c. (m, c)) (filter (\<lambda>c. m_chat_jid m = c_jid c) cs)) =
        replicate (length (filter (\<lambda>c. m_chat_jid m = c_jid c) cs)) m"
    by (simp add: comp_def map_replicate_const)
  also have "\<dots> = (if m_chat_jid m \<in> c_jid ` set cs then [m] else [])"
    using Cons.prems by (simp add: length_filter_key)
  finally show ?case using Cons by simp
qed

lemma joined_keys_distinct:
  assumes "pk_ok s"
  shows "distinct (map row_key (messages_join_chats s))"
proof -
  have "map row_key (messages_join_chats s) =
        map (\<lambda>m. (m_id m, m_chat_jid m)) (map fst (messages_join_chats s))"
    by (simp add: row_key_def comp_def)
  also have "\<dots> = map (\<lambda>m. (m_id m, m_chat_jid m))
                     (filter (\<lambda>m. m_chat_jid m \<in> c_jid ` set (chats s)) (messages s))"
    using assms by (simp add: messages_join_chats_def map_fst_pairs pk_ok_def)
  finally show ?thesis
    using assms by (simp add: pk_ok_def distinct_map_filter)
qed

lemma joined_chat: "mc \<in> set (messages_join_chats s) \<Longrightarrow> c_jid (snd mc) = m_chat_jid (fst mc)"
  by (auto simp: messages_join_chats_def)

lemma distinct_map_sub:
  "distinct (map f J) \<Longrightarrow> distinct L \<Longrightarrow> set L \<subseteq> set J \<Longrightarrow> distinct (map f L)"
  by (auto simp: distinct_map intro: inj_on_subset)




lemma distinct_sql_offset: "distinct xs \<Longrightarrow> distinct (sql_offset n xs)"
  by (simp add: sql_offset_def)

lemma set_order_by_desc: "set (order_by_desc k xs) = set xs"
  by (simp add: order_by_desc_def)

lemma distinct_order_by_desc: "distinct (order_by_desc k xs) = distinct xs"
  by (simp add: order_by_desc_def)





















subsection \<open>ListMessages with context, and its pages\<close>







lemma lm_defaults_plain:
  "\<not> lm_IncludeContext opts \<Longrightarrow> lm_Limit opts \<noteq> 0 \<Longrightarrow> lm_defaults opts = opts"
  by (simp add: lm_defaults_def)

lemma ListMessages_plain:
  "\<not> lm_IncludeContext opts \<Longrightarrow> lm_Limit opts \<noteq> 0 \<Longrightarrow>
   ListMessages s opts = Inr (map (\<lambda>m. rawToDict m (BuildSenderCache s)) (list_messages_rows s opts))"
  by (simp add: ListMessages_def lm_defaults_plain)

lemma lm_where_page: "lm_where (opts\<lparr>lm_Limit := l, lm_Page := p\<rparr>) = lm_where opts"
  by (rule ext) (simp add: lm_where_def)

lemma rows_page:
  "list_messages_rows s (opts\<lparr>lm_Limit := l, lm_Page := p\<rparr>) =
     map scan_message (sql_limit_offset (sint l) (sint (p * l)) (filtered_sorted s opts))"
  by (simp add: list_messages_rows_def filtered_sorted_def lm_where_page)

lemma dict_key: "(ID (rawToDict (scan_message mc) cache), ChatJID (rawToDict (scan_message mc) cache))
   = (m_id (fst mc), c_jid (snd mc))"
  by (simp add: rawToDict_def scan_message_def)

lemma distinct_under_map: "distinct (map f xs) \<Longrightarrow> distinct xs"
  by (simp add: distinct_map)

lemma projected_distinct:
  assumes pk: "pk_ok s" and dL: "distinct L" and sub: "set L \<subseteq> set (messages_join_chats s)"
  shows "distinct (map (\<lambda>m. rawToDict m cache) (map scan_message L))"
proof -
  have "distinct (map row_key L)"
    using joined_keys_distinct [OF pk] dL sub by (rule distinct_map_sub)
  moreover have "\<forall>mc \<in> set L. row_key mc = (m_id (fst mc), c_jid (snd mc))"
    using sub joined_chat [of _ s] by (auto simp: row_key_def)
  then have "map row_key L =
      map (\<lambda>d. (ID d, ChatJID d)) (map (\<lambda>m. rawToDict m cache) (map scan_message L))"
    by (simp add: dict_key)
  ultimately have
    "distinct (map (\<lambda>d. (ID d, ChatJID d)) (map (\<lambda>m. rawToDict m cache) (map scan_message L)))"
    by metis
  then show ?thesis
    by (rule distinct_under_map)
qed

text \<open>
  Claim C7, as amended. With \<open>includeContext\<close> false, and whatever the filters, the
  listing with limit 2 at page 0 followed by the listing with limit 2 at page 1 is the
  listing with limit 4 at page 0; under the primary keys of the schema no entry occurs
  twice in it, so the two pages are disjoint.
\<close>

theorem ListMessages_two_pages:
  assumes "\<not> lm_IncludeContext opts"
  shows "\<exists>r0 r1.
           ListMessages s (opts\<lparr>lm_Limit := 2, lm_Page := 0\<rparr>) = Inr r0 \<and>
           ListMessages s (opts\<lparr>lm_Limit := 2, lm_Page := 1\<rparr>) = Inr r1 \<and>
           ListMessages s (opts\<lparr>lm_Limit := 4, lm_Page := 0\<rparr>) = Inr (r0 @ r1) \<and>
           (pk_ok s \<longrightarrow> distinct (r0 @ r1))"
proof -
  define X where "X = filtered_sorted s opts"
  define pr where "pr = (\<lambda>L. map (\<lambda>m. rawToDict m (BuildSenderCache s)) (map scan_message L))"
  have p0: "ListMessages s (opts\<lparr>lm_Limit := 2, lm_Page := 0\<rparr>) = Inr (pr (take 2 X))"
    using assms by (simp add: ListMessages_plain rows_page sql_limit_offset_def sql_limit_def
        sql_offset_def X_def pr_def)
  have p1: "ListMessages s (opts\<lparr>lm_Limit := 2, lm_Page := 1\<rparr>) = Inr (pr (take 2 (drop 2 X)))"
    using assms by (simp add: ListMessages_plain rows_page sql_limit_offset_def sql_limit_def
        sql_offset_def X_def pr_def)
  have p4: "ListMessages s (opts\<lparr>lm_Limit := 4, lm_Page := 0\<rparr>) = Inr (pr (take 4 X))"
    using assms by (simp add: ListMessages_plain rows_page sql_limit_offset_def sql_limit_def
        sql_offset_def X_def pr_def)
  have split: "take 4 X = take 2 X @ take 2 (drop 2 X)"
    using take_add [of 2 2 X] by simp
  have cat: "pr (take 4 X) = pr (take 2 X) @ pr (take 2 (drop 2 X))"
    by (simp add: split pr_def)
  have dist: "pk_ok s \<longrightarrow> distinct (pr (take 4 X))"
  proof
    assume pk: "pk_ok s"
    then have "distinct (messages_join_chats s)"
      using joined_keys_distinct [OF pk] by (simp add: distinct_map)
    then have "distinct (take 4 X)"
      by (simp add: X_def filtered_sorted_def distinct_order_by_desc)
    moreover have "set (take 4 X) \<subseteq> set (messages_join_chats s)"
      using set_take_subset [of 4 X] by (auto simp: X_def filtered_sorted_def set_order_by_desc)
    ultimately show "distinct (pr (take 4 X))"
      unfolding pr_def using pk by (intro projected_distinct)
  qed
  from p0 p1 p4 cat dist show ?thesis
    by metis
qed

theorem ListMessages_two_pages_witness:
  "ListMessages five_store (page_opts 2 0 False) =
     Inr (take 2 (projr (ListMessages five_store (page_opts 4 0 False)))) \<and>
   ListMessages five_store (page_opts 2 1 False) =
     Inr (drop 2 (projr (ListMessages five_store (page_opts 4 0 False)))) \<and>
   map ID (projr (ListMessages five_store (page_opts 4 0 False))) = [''m5'', ''m4'', ''m3'', ''m2'']"
proof -
  have h: "\<not> lm_IncludeContext (page_opts 0 0 False)"
    by (simp add: page_opts_def)
  have e: "(page_opts 0 0 False)\<lparr>lm_Limit := l, lm_Page := p\<rparr> = page_opts l p False" for l p
    by (simp add: page_opts_def)
  from ListMessages_two_pages [OF h, of five_store] obtain r0 r1 where
    r: "ListMessages five_store (page_opts 2 0 False) = Inr r0"
       "ListMessages five_store (page_opts 2 1 False) = Inr r1"
       "ListMessages five_store (page_opts 4 0 False) = Inr (r0 @ r1)"
    unfolding e by blast
  have l0: "length (projr (ListMessages five_store (page_opts 2 0 False))) = 2"
    by code_simp
  have ids: "map ID (projr (ListMessages five_store (page_opts 4 0 False))) =
             [''m5'', ''m4'', ''m3'', ''m2'']"
    by code_simp
  from r l0 ids show ?thesis
    by simp
qed

text \<open>
  With \<open>includeContext\<close> true the page is cut before the windows are added, so the pages
  overlap: on five messages of one chat, page 0 holds \<open>m4, m5, m3\<close> and page 1 holds
  \<open>m2, m3, m4, m1\<close>, while the listing with limit 4 holds \<open>m4, m5, m3, m2, m1\<close>.
\<close>

theorem ListMessages_pages_counterexample:
  "map ID (projr (ListMessages five_store (page_opts 2 0 True))) @
   map ID (projr (ListMessages five_store (page_opts 2 1 True))) \<noteq>
   map ID (projr (ListMessages five_store (page_opts 4 0 True))) \<and>
   set (map ID (projr (ListMessages five_store (page_opts 2 0 True)))) \<inter>
   set (map ID (projr (ListMessages five_store (page_opts 2 1 True)))) \<noteq> {}"
proof -
  have "map ID (projr (ListMessages five_store (page_opts 2 0 True))) = [''m4'', ''m5'', ''m3'']"
    by code_simp
  moreover have "map ID (projr (ListMessages five_store (page_opts 2 1 True))) =
                 [''m2'', ''m3'', ''m4'', ''m1'']"
    by code_simp
  moreover have "map ID (projr (ListMessages five_store (page_opts 4 0 True))) =
                 [''m4'', ''m5'', ''m3'', ''m2'', ''m1'']"
    by code_simp
  ultimately show ?thesis
    by simp
qed

subsection \<open>Context targets are found by id alone\<close>






subsection \<open>The context window of GetMessageContext\<close>














subsection \<open>Building the identity cache\<close>

lemma cache_put_add: "cache_put j n c = c ++ cache_put j n Map.empty"
  by (simp add: cache_put_def Let_def)

lemma chat_step_add: "chat_step r c = c ++ chat_step r Map.empty"
  using cache_put_add [of "c_jid r" _ c]
  by (simp add: chat_step_def split: option.splits)

lemma contact_step_add: "contact_step r c = c ++ contact_step r Map.empty"
  using cache_put_add [of "their_jid r" _ c]
  by (simp add: contact_step_def Let_def)

lemma fold_chat_step_add: "fold chat_step rows c = c ++ fold chat_step rows Map.empty"
proof (induction rows arbitrary: c)
  case Nil
  then show ?case by simp
next
  case (Cons r rows)
  have "fold chat_step (r # rows) c = chat_step r c ++ fold chat_step rows Map.empty"
    using Cons [of "chat_step r c"] by simp
  also have "\<dots> = c ++ (chat_step r Map.empty ++ fold chat_step rows Map.empty)"
    using chat_step_add [of r c] by simp
  also have "chat_step r Map.empty ++ fold chat_step rows Map.empty =
             fold chat_step (r # rows) Map.empty"
    using Cons [of "chat_step r Map.empty"] by simp
  finally show ?case .
qed

lemma fold_contact_step_add: "fold contact_step rows c = c ++ fold contact_step rows Map.empty"
proof (induction rows arbitrary: c)
  case Nil
  then show ?case by simp
next
  case (Cons r rows)
  have "fold contact_step (r # rows) c = contact_step r c ++ fold contact_step rows Map.empty"
    using Cons [of "contact_step r c"] by simp
  also have "\<dots> = c ++ (contact_step r Map.empty ++ fold contact_step rows Map.empty)"
    using contact_step_add [of r c] by simp
  also have "contact_step r Map.empty ++ fold contact_step rows Map.empty =
             fold contact_step (r # rows) Map.empty"
    using Cons [of "contact_step r Map.empty"] by simp
  finally show ?case .
qed

lemma lid_step_other: "k \<noteq> lid r @ ''@lid'' \<Longrightarrow> k \<noteq> lid r \<Longrightarrow> lid_step r c k = c k"
  by (simp add: lid_step_def Let_def)

lemma fold_lid_step_other: "k \<notin> lid_keys ls \<Longrightarrow> fold lid_step ls c k = c k"
proof (induction ls arbitrary: c)
  case Nil
  then show ?case by simp
next
  case (Cons r ls)
  from Cons.prems have "k \<notin> lid_keys ls" and "k \<noteq> lid r @ ''@lid''" and "k \<noteq> lid r"
    by (simp_all add: lid_keys_def)
  then show ?case
    using Cons.IH [of "lid_step r c"] by (simp add: lid_step_other)
qed

lemma BuildSenderCache_sources:
  assumes "WaDB s = Some wa" and "whatsmeow_contacts wa = Some cs"
    and "whatsmeow_lid_map wa = Some ls"
  shows "BuildSenderCache s = fold lid_step ls (chat_names s ++ contact_names cs)"
  using assms fold_contact_step_add [of cs "fold chat_step (chats s) Map.empty"]
  by (simp add: BuildSenderCache_def chat_names_def contact_names_def)

text \<open>Both keys of a row hold its name once the row is applied.\<close>

lemma cache_put_keys:
  "cache_put j n c j = Some n \<and> (local_part j \<noteq> [] \<longrightarrow> cache_put j n c (local_part j) = Some n)"
proof (cases "at_sign \<in> set j")
  case True
  then show ?thesis
    using take_Index_at [OF True] Index_at_pos [OF True]
    by (auto simp: cache_put_def Let_def)
next
  case False
  then show ?thesis
    using Index_at_absent [OF False] by (simp add: cache_put_def Let_def)
qed

lemma lid_step_keys:
  "lid_name r c \<noteq> [] \<Longrightarrow>
   lid_step r c (lid r @ ''@lid'') = Some (lid_name r c) \<and> lid_step r c (lid r) = Some (lid_name r c)"
  by (auto simp: lid_step_def lid_name_def Let_def)

lemma lid_step_unresolved: "lid_name r c = [] \<Longrightarrow> lid_step r c = c"
  by (auto simp: lid_step_def lid_name_def Let_def)

lemma contact_step_unnamed: "contact_display q = [] \<Longrightarrow> contact_step q c = c"
  by (simp add: contact_step_def Let_def)

lemma chat_step_unnamed: "c_name r = None \<or> c_name r = Some [] \<Longrightarrow> chat_step r c = c"
  by (auto simp: chat_step_def)

text \<open>No step removes a key.\<close>

lemma dom_cache_put: "dom c \<subseteq> dom (cache_put j n c)"
  by (auto simp: cache_put_def Let_def)

lemma dom_chat_step: "dom c \<subseteq> dom (chat_step r c)"
  using dom_cache_put [of c "c_jid r"] by (auto simp: chat_step_def split: option.splits)

lemma dom_contact_step: "dom c \<subseteq> dom (contact_step r c)"
  using dom_cache_put [of c "their_jid r"] by (auto simp: contact_step_def Let_def)

lemma dom_lid_step: "dom c \<subseteq> dom (lid_step r c)"
  by (auto simp: lid_step_def Let_def)

lemma dom_fold_chat: "dom c \<subseteq> dom (fold chat_step rows c)"
proof (induction rows arbitrary: c)
  case Nil
  then show ?case by simp
next
  case (Cons r rows)
  show ?case
    using order_trans [OF dom_chat_step [of c r] Cons [of "chat_step r c"]] by simp
qed

lemma dom_fold_contact: "dom c \<subseteq> dom (fold contact_step rows c)"
proof (induction rows arbitrary: c)
  case Nil
  then show ?case by simp
next
  case (Cons r rows)
  show ?case
    using order_trans [OF dom_contact_step [of c r] Cons [of "contact_step r c"]] by simp
qed

lemma dom_fold_lid: "dom c \<subseteq> dom (fold lid_step rows c)"
proof (induction rows arbitrary: c)
  case Nil
  then show ?case by simp
next
  case (Cons r rows)
  show ?case
    using order_trans [OF dom_lid_step [of c r] Cons [of "lid_step r c"]] by simp
qed

lemma row_keys_put: "row_keys j \<subseteq> dom (cache_put j n c)"
  using cache_put_keys [of j n c] by (auto simp: row_keys_def)

lemma chat_rows_indexed:
  "r \<in> set rows \<Longrightarrow> c_name r = Some n \<Longrightarrow> n \<noteq> [] \<Longrightarrow>
   row_keys (c_jid r) \<subseteq> dom (fold chat_step rows c)"
proof (induction rows arbitrary: c)
  case Nil
  then show ?case by simp
next
  case (Cons q rows)
  show ?case
  proof (cases "r = q")
    case True
    with Cons.prems have "row_keys (c_jid r) \<subseteq> dom (chat_step q c)"
      using row_keys_put [of "c_jid r" n c] by (simp add: chat_step_def)
    then show ?thesis
      using dom_fold_chat [of "chat_step q c" rows] by auto
  next
    case False
    with Cons.prems have "r \<in> set rows" by simp
    then show ?thesis
      using Cons.IH [of "chat_step q c"] Cons.prems by simp
  qed
qed

lemma contact_rows_indexed:
  "r \<in> set rows \<Longrightarrow> contact_display r \<noteq> [] \<Longrightarrow>
   row_keys (their_jid r) \<subseteq> dom (fold contact_step rows c)"
proof (induction rows arbitrary: c)
  case Nil
  then show ?case by simp
next
  case (Cons q rows)
  show ?case
  proof (cases "r = q")
    case True
    with Cons.prems have "row_keys (their_jid r) \<subseteq> dom (contact_step q c)"
      using row_keys_put [of "their_jid r" "contact_display r" c]
      by (simp add: contact_step_def Let_def)
    then show ?thesis
      using dom_fold_contact [of "contact_step q c" rows] by auto
  next
    case False
    with Cons.prems have "r \<in> set rows" by simp
    then show ?thesis
      using Cons.IH [of "contact_step q c"] Cons.prems by simp
  qed
qed

lemma dom_chat_names: "dom (chat_names s) \<subseteq> dom (BuildSenderCache s)"
proof -
  have "dom (chat_names s) \<subseteq> dom (fold lid_step ls (fold contact_step cs (chat_names s)))" for cs ls
    using dom_fold_contact [of "chat_names s" cs]
      dom_fold_lid [of "fold contact_step cs (chat_names s)" ls]
    by blast
  moreover have "dom (chat_names s) \<subseteq> dom (fold contact_step cs (chat_names s))" for cs
    by (rule dom_fold_contact)
  ultimately show ?thesis
    by (simp add: BuildSenderCache_def chat_names_def Let_def split: option.splits)
qed

lemma dom_contacts:
  assumes "WaDB s = Some wa" and "whatsmeow_contacts wa = Some cs"
  shows "dom (fold contact_step cs (chat_names s)) \<subseteq> dom (BuildSenderCache s)"
  using assms dom_fold_lid [of "fold contact_step cs (chat_names s)"]
  by (simp add: BuildSenderCache_def chat_names_def Let_def split: option.splits)


text \<open>
  Claim C5, as amended. When all three sources can be read, the cache is the names of the
  chat table, overridden key by key by the names of the contact directory, with the rows
  of the linkage table applied last; a key that the linkage table does not write keeps the
  entry of the first two sources. A row without a name changes nothing. Every named row of
  the chat table and of the contact directory is indexed under its identifier and, when
  the local part of the identifier is not empty, under that local part; a row of the
  linkage table that resolves to a name is indexed under the linked identifier followed by
  \<open>@lid\<close> and under the linked identifier. In the scenario of section 8 the sender
  \<open>111\<close> resolves to \<open>Bob Smith\<close>.
\<close>

theorem identity_cache_sources:
  "(WaDB s = Some wa \<and> whatsmeow_contacts wa = Some cs \<and> whatsmeow_lid_map wa = Some ls \<longrightarrow>
      BuildSenderCache s = fold lid_step ls (chat_names s ++ contact_names cs) \<and>
      (\<forall>k. k \<notin> lid_keys ls \<longrightarrow> BuildSenderCache s k = (chat_names s ++ contact_names cs) k) \<and>
      (\<forall>r \<in> set cs. contact_display r \<noteq> [] \<longrightarrow>
         row_keys (their_jid r) \<subseteq> dom (BuildSenderCache s))) \<and>
   (\<forall>r \<in> set (chats s). \<forall>n. c_name r = Some n \<and> n \<noteq> [] \<longrightarrow>
      row_keys (c_jid r) \<subseteq> dom (BuildSenderCache s)) \<and>
   (\<forall>k \<in> row_keys j. cache_put j n c k = Some n) \<and>
   (contact_display q = [] \<longrightarrow> contact_step q c = c) \<and>
   (lid_name p c \<noteq> [] \<longrightarrow>
      lid_step p c (lid p @ ''@lid'') = Some (lid_name p c) \<and>
      lid_step p c (lid p) = Some (lid_name p c)) \<and>
   (lid_name p c = [] \<longrightarrow> lid_step p c = c) \<and>
   resolveSender ''111'' (BuildSenderCache bob_store) = ''Bob Smith''"
proof -
  have priority:
    "WaDB s = Some wa \<and> whatsmeow_contacts wa = Some cs \<and> whatsmeow_lid_map wa = Some ls \<longrightarrow>
      BuildSenderCache s = fold lid_step ls (chat_names s ++ contact_names cs) \<and>
      (\<forall>k. k \<notin> lid_keys ls \<longrightarrow> BuildSenderCache s k = (chat_names s ++ contact_names cs) k) \<and>
      (\<forall>r \<in> set cs. contact_display r \<noteq> [] \<longrightarrow>
         row_keys (their_jid r) \<subseteq> dom (BuildSenderCache s))"
  proof
    assume h: "WaDB s = Some wa \<and> whatsmeow_contacts wa = Some cs \<and> whatsmeow_lid_map wa = Some ls"
    then have eq: "BuildSenderCache s = fold lid_step ls (chat_names s ++ contact_names cs)"
      by (simp add: BuildSenderCache_sources)
    have other: "\<forall>k. k \<notin> lid_keys ls \<longrightarrow>
                  BuildSenderCache s k = (chat_names s ++ contact_names cs) k"
      unfolding eq by (simp add: fold_lid_step_other)
    have "\<forall>r \<in> set cs. contact_display r \<noteq> [] \<longrightarrow>
            row_keys (their_jid r) \<subseteq> dom (BuildSenderCache s)"
    proof (intro ballI impI)
      fix r
      assume "r \<in> set cs" and "contact_display r \<noteq> []"
      then have "row_keys (their_jid r) \<subseteq> dom (fold contact_step cs (chat_names s))"
        by (rule contact_rows_indexed)
      then show "row_keys (their_jid r) \<subseteq> dom (BuildSenderCache s)"
        using dom_contacts [of s wa cs] h by blast
    qed
    with eq other show "BuildSenderCache s = fold lid_step ls (chat_names s ++ contact_names cs) \<and>
      (\<forall>k. k \<notin> lid_keys ls \<longrightarrow> BuildSenderCache s k = (chat_names s ++ contact_names cs) k) \<and>
      (\<forall>r \<in> set cs. contact_display r \<noteq> [] \<longrightarrow>
         row_keys (their_jid r) \<subseteq> dom (BuildSenderCache s))"
      by blast
  qed
  have chat: "\<forall>r \<in> set (chats s). \<forall>n. c_name r = Some n \<and> n \<noteq> [] \<longrightarrow>
      row_keys (c_jid r) \<subseteq> dom (BuildSenderCache s)"
  proof (intro ballI allI impI)
    fix r n
    assume "r \<in> set (chats s)" and "c_name r = Some n \<and> n \<noteq> []"
    then have "row_keys (c_jid r) \<subseteq> dom (chat_names s)"
      unfolding chat_names_def by (intro chat_rows_indexed [of r "chats s" n]) simp_all
    then show "row_keys (c_jid r) \<subseteq> dom (BuildSenderCache s)"
      using dom_chat_names [of s] by blast
  qed
  have put: "\<forall>k \<in> row_keys j. cache_put j n c k = Some n"
    using cache_put_keys [of j n c] by (auto simp: row_keys_def split: if_splits)
  have bob: "resolveSender ''111'' (BuildSenderCache bob_store) = ''Bob Smith''"
    by code_simp
  have unnamed: "contact_display q = [] \<longrightarrow> contact_step q c = c"
    by (simp add: contact_step_unnamed)
  have linked: "lid_name p c \<noteq> [] \<longrightarrow>
      lid_step p c (lid p @ ''@lid'') = Some (lid_name p c) \<and>
      lid_step p c (lid p) = Some (lid_name p c)"
    using lid_step_keys [of p c] by blast
  have unlinked: "lid_name p c = [] \<longrightarrow> lid_step p c = c"
    by (simp add: lid_step_unresolved)
  from priority chat put unnamed linked unlinked bob show ?thesis
    by (intro conjI)
qed

theorem identity_cache_sources_witness:
  "BuildSenderCache bob_store = fold lid_step [] (chat_names bob_store ++ contact_names [bob_contact]) \<and>
   row_keys ''111@s.whatsapp.net'' \<subseteq> dom (BuildSenderCache bob_store) \<and>
   chat_names bob_store ''111'' = Some ''Bob (phone)'' \<and>
   BuildSenderCache bob_store ''111'' = Some ''Bob Smith''"
proof -
  have h: "WaDB bob_store = Some bob_wa \<and> whatsmeow_contacts bob_wa = Some [bob_contact] \<and>
           whatsmeow_lid_map bob_wa = Some []"
    by (simp add: bob_store_def bob_wa_def)
  have r: "bob_contact \<in> set [bob_contact]" "contact_display bob_contact \<noteq> []"
          "their_jid bob_contact = ''111@s.whatsapp.net''"
    by (simp_all add: bob_contact_def contact_display_def)
  have v: "chat_names bob_store ''111'' = Some ''Bob (phone)''"
          "BuildSenderCache bob_store ''111'' = Some ''Bob Smith''"
    by code_simp+
  have "WaDB bob_store = Some bob_wa \<and> whatsmeow_contacts bob_wa = Some [bob_contact] \<and>
           whatsmeow_lid_map bob_wa = Some [] \<longrightarrow>
      BuildSenderCache bob_store =
        fold lid_step [] (chat_names bob_store ++ contact_names [bob_contact]) \<and>
      (\<forall>k. k \<notin> lid_keys [] \<longrightarrow>
         BuildSenderCache bob_store k = (chat_names bob_store ++ contact_names [bob_contact]) k) \<and>
      (\<forall>r \<in> set [bob_contact]. contact_display r \<noteq> [] \<longrightarrow>
         row_keys (their_jid r) \<subseteq> dom (BuildSenderCache bob_store))"
    using identity_cache_sources [where s = bob_store and wa = bob_wa and cs = "[bob_contact]"
      and ls = "[]"]
    by (rule conjunct1)
  with h have e: "BuildSenderCache bob_store =
        fold lid_step [] (chat_names bob_store ++ contact_names [bob_contact])"
    and k: "\<forall>r \<in> set [bob_contact]. contact_display r \<noteq> [] \<longrightarrow>
         row_keys (their_jid r) \<subseteq> dom (BuildSenderCache bob_store)"
    by blast+
  from k r have k': "row_keys ''111@s.whatsapp.net'' \<subseteq> dom (BuildSenderCache bob_store)"
    by metis
  from e k' v show ?thesis
    by (intro conjI)
qed

text \<open>
  A named chat whose key is \<open>@x\<close> is indexed under \<open>@x\<close> only: the key with its
  \<open>@\<close> suffix stripped is the empty string, and \<open>BuildSenderCache\<close> writes the second
  key only when \<open>@\<close> is not the first character.
\<close>

theorem identity_cache_counterexample:
  "map (\<lambda>r. (c_jid r, c_name r)) (chats at_x_store) = [(''@x'', Some ''N'')] \<and>
   BuildSenderCache at_x_store ''@x'' = Some ''N'' \<and>
   local_part ''@x'' = [] \<and>
   BuildSenderCache at_x_store (local_part ''@x'') = None"
  by code_simp

subsection \<open>What LIKE matches\<close>






lemma sql_lower_Nil: "(sql_lower s = []) = (s = [])"
  by (simp add: sql_lower_def)



















text \<open>The meaning of the three predicates, by \<open>sql_lower\<close> and concatenation.\<close>

lemma ci_prefix_iff: "ci_prefix q s = (\<exists>t post. s = t @ post \<and> sql_lower t = sql_lower q)"
proof (induction q s rule: ci_prefix.induct)
  case (1 s)
  then show ?case by (simp add: sql_lower_def)
next
  case (2 q qs)
  then show ?case by (simp add: sql_lower_def)
next
  case (3 q qs c cs)
  show ?case
  proof
    assume "ci_prefix (q # qs) (c # cs)"
    with 3 obtain t post where "cs = t @ post" "sql_lower t = sql_lower qs" "lower_char q = lower_char c"
      by auto
    then have "c # cs = (c # t) @ post \<and> sql_lower (c # t) = sql_lower (q # qs)"
      by (simp add: sql_lower_def)
    then show "\<exists>t post. c # cs = t @ post \<and> sql_lower t = sql_lower (q # qs)"
      by blast
  next
    assume "\<exists>t post. c # cs = t @ post \<and> sql_lower t = sql_lower (q # qs)"
    then obtain t post where t: "c # cs = t @ post" "sql_lower t = sql_lower (q # qs)"
      by blast
    then obtain t' where "t = c # t'" "cs = t' @ post"
      by (cases t) (auto simp: sql_lower_def)
    with t 3 show "ci_prefix (q # qs) (c # cs)"
      by (auto simp: sql_lower_def)
  qed
qed

lemma ci_contains_iff:
  "ci_contains q s = (\<exists>pre t post. s = pre @ t @ post \<and> sql_lower t = sql_lower q)"
proof (induction s)
  case Nil
  then show ?case by (cases q) (auto simp: sql_lower_def)
next
  case (Cons c cs)
  show ?case
  proof
    assume "ci_contains q (c # cs)"
    then consider "ci_prefix q (c # cs)" | "ci_contains q cs" by auto
    then show "\<exists>pre t post. c # cs = pre @ t @ post \<and> sql_lower t = sql_lower q"
    proof cases
      case 1
      then obtain t post where "c # cs = [] @ t @ post \<and> sql_lower t = sql_lower q"
        by (auto simp: ci_prefix_iff)
      then show ?thesis by blast
    next
      case 2
      with Cons obtain pre t post where "cs = pre @ t @ post" "sql_lower t = sql_lower q"
        by blast
      then have "c # cs = (c # pre) @ t @ post \<and> sql_lower t = sql_lower q" by simp
      then show ?thesis by blast
    qed
  next
    assume "\<exists>pre t post. c # cs = pre @ t @ post \<and> sql_lower t = sql_lower q"
    then obtain pre t post where p: "c # cs = pre @ t @ post" "sql_lower t = sql_lower q"
      by blast
    show "ci_contains q (c # cs)"
    proof (cases pre)
      case Nil
      with p have "ci_prefix q (c # cs)" by (auto simp: ci_prefix_iff)
      then show ?thesis by simp
    next
      case (Cons a pre')
      with p have "cs = pre' @ t @ post" by simp
      with p Cons.IH have "ci_contains q cs" by blast
      then show ?thesis by simp
    qed
  qed
qed



subsection \<open>SearchContacts\<close>















end
